theory Spec2Isabelle
  imports
    Complex_Main
    "HOL-Library.Product_Lexorder"
    "HOL-Library.Char_ord"
    "HOL-Library.List_Lexorder"
    "HOL-Library.Sublist"
    "HOL-Library.AList"
begin

section \<open>Exceptions of the notebooks\<close>

text \<open>
  The notebooks contain no \<^verbatim>\<open>raise\<close> of their own; the exceptions that can end a cell come
  from the library calls and the destructuring assignments they are written with. Each such
  place is one constructor:
  \<^item> \<open>ZeroSizeArray\<close>: the ValueError of \<^verbatim>\<open>np.min\<close> on an array with no element;
  \<^item> \<open>NotEnoughValues\<close>, \<open>TooManyValues\<close>: the ValueError of unpacking a sequence into
    the one-element pattern \<^verbatim>\<open>[xloc]\<close>;
  \<^item> \<open>IndexError\<close>: a subscript outside a list or array;
  \<^item> \<open>ConflictingSizes\<close>: the ValueError of \<^verbatim>\<open>xr.DataArray\<close> when the data and the
    coordinate of its dimension differ in length.
\<close>

datatype error = ZeroSizeArray | NotEnoughValues | TooManyValues | IndexError | ConflictingSizes

section \<open>Summer days notebook: nearest model grid point\<close>

text \<open>
  Coordinates are float64 in the source; they are modelled as exact reals (rounding and NaN
  coordinates are outside the model). The cell is
  \<^verbatim>\<open>
  abslat = np.abs(tasmax_year_xr["lat"] - location.latitude)
  abslon = np.abs(tasmax_year_xr["lon"] - location.longitude)
  c = np.maximum(abslon, abslat)
  ([xloc], [yloc]) = np.where(c == np.min(c))
  \<close>
  \<open>abslat\<close> has the dimension lat and \<open>abslon\<close> the dimension lon, so the labelled-array
  broadcast of \<^verbatim>\<open>np.maximum(abslon, abslat)\<close> is two-dimensional with dimensions (lon, lat):
  row \<open>i\<close> belongs to \<open>lon[i]\<close>, column \<open>j\<close> to \<open>lat[j]\<close>.
\<close>

definition abslat :: "real list \<Rightarrow> real \<Rightarrow> real list" where
  "abslat lat latitude = map (\<lambda>v. \<bar>v - latitude\<bar>) lat"

definition abslon :: "real list \<Rightarrow> real \<Rightarrow> real list" where
  "abslon lon longitude = map (\<lambda>v. \<bar>v - longitude\<bar>) lon"

definition np_maximum :: "real list \<Rightarrow> real list \<Rightarrow> real list list" where
  "np_maximum as bs = map (\<lambda>a. map (\<lambda>b. max a b) bs) as"

text \<open>\<^verbatim>\<open>np.min\<close> of a two-dimensional array: the least element, ValueError when the array
  has no element.\<close>

definition np_min :: "real list list \<Rightarrow> error + real" where
  "np_min c = (case concat c of [] \<Rightarrow> Inl ZeroSizeArray | v # vs \<Rightarrow> Inr (fold min vs v))"

text \<open>\<^verbatim>\<open>np.where\<close> with one argument: the row indices and the column indices of the true
  entries, both in row-major order.\<close>

definition true_positions :: "bool list list \<Rightarrow> (nat \<times> nat) list" where
  "true_positions b =
     concat (map (\<lambda>i. map (Pair i) (filter (\<lambda>j. b ! i ! j) [0..<length (b ! i)])) [0..<length b])"

definition np_where :: "bool list list \<Rightarrow> nat list \<times> nat list" where
  "np_where b = (map fst (true_positions b), map snd (true_positions b))"

text \<open>The assignment to the pattern \<^verbatim>\<open>[xloc]\<close>: the right-hand side must have exactly one
  element.\<close>

fun unpack1 :: "'a list \<Rightarrow> error + 'a" where
  "unpack1 [] = Inl NotEnoughValues"
| "unpack1 [x] = Inr x"
| "unpack1 (x # y # zs) = Inl TooManyValues"

definition nearest_grid_point :: "real list \<Rightarrow> real list \<Rightarrow> real \<Rightarrow> real \<Rightarrow> error + nat \<times> nat" where
  "nearest_grid_point lat lon latitude longitude =
     (let c = np_maximum (abslon lon longitude) (abslat lat latitude) in
      case np_min c of
        Inl e \<Rightarrow> Inl e
      | Inr m \<Rightarrow>
          (case np_where (map (map (\<lambda>v. v = m)) c) of
             (xs, ys) \<Rightarrow>
               (case unpack1 xs of
                  Inl e \<Rightarrow> Inl e
                | Inr xloc \<Rightarrow>
                    (case unpack1 ys of
                       Inl e \<Rightarrow> Inl e
                     | Inr yloc \<Rightarrow> Inr (xloc, yloc)))))"

text \<open>The distance the cell minimises, at the grid point with longitude index \<open>i\<close> and
  latitude index \<open>j\<close>.\<close>

definition chebyshev :: "real list \<Rightarrow> real list \<Rightarrow> real \<Rightarrow> real \<Rightarrow> nat \<Rightarrow> nat \<Rightarrow> real" where
  "chebyshev lat lon latitude longitude i j =
     max \<bar>lon ! i - longitude\<bar> \<bar>lat ! j - latitude\<bar>"

text \<open>A grid point at which the distance is least among all grid points.\<close>

definition nearest_at :: "real list \<Rightarrow> real list \<Rightarrow> real \<Rightarrow> real \<Rightarrow> nat \<Rightarrow> nat \<Rightarrow> bool" where
  "nearest_at lat lon latitude longitude i j \<longleftrightarrow>
     i < length lon \<and> j < length lat \<and>
     (\<forall>i' < length lon. \<forall>j' < length lat.
        chebyshev lat lon latitude longitude i j \<le> chebyshev lat lon latitude longitude i' j')"

text \<open>The index pairs that \<^verbatim>\<open>np.where(c == np.min(c))\<close> lists for a grid with at least one
  point.\<close>

definition minimum_positions :: "real list \<Rightarrow> real list \<Rightarrow> real \<Rightarrow> real \<Rightarrow> (nat \<times> nat) list" where
  "minimum_positions lat lon latitude longitude =
     (let c = np_maximum (abslon lon longitude) (abslat lat latitude) in
      true_positions (map (map (\<lambda>v. v = Min (set (concat c)))) c))"

section \<open>Summer days notebook: the selected year\<close>

text \<open>
  A time stamp is (year, month, day, hour, minute, second), compared lexicographically, which
  is the order of the ISO strings the notebook writes. Fractions of a second are outside the
  model. A series is the list of its (time stamp, value) pairs in the order of the time
  axis; for \<open>tasmax_xr\<close> the value at a time stamp is the whole field (lat, lon).
\<close>

type_synonym timestamp = "int \<times> nat \<times> nat \<times> nat \<times> nat \<times> nat"

type_synonym 'a series = "(timestamp \<times> 'a) list"

text \<open>
  \<^verbatim>\<open>
  time_start = str(year_box.value) + "-01-01T12:00:00.000000000"
  time_end = str(year_box.value) + "-12-31T12:00:00.000000000"
  tasmax_year_xr = tasmax_xr.loc[time_start:time_end, :, :]
  \<close>
\<close>

definition time_start :: "int \<Rightarrow> timestamp" where
  "time_start year = (year, 1, 1, 12, 0, 0)"

definition time_end :: "int \<Rightarrow> timestamp" where
  "time_end year = (year, 12, 31, 12, 0, 0)"

text \<open>
  Selection by label with a slice keeps both ends. On the increasing time axis of a model
  file the labelled-array library finds the block by position: it starts at the first stamp
  that is not before the lower label and stops before the first stamp after the upper
  label. The model is for increasing time axes.
\<close>

definition loc_slice :: "timestamp \<Rightarrow> timestamp \<Rightarrow> 'a series \<Rightarrow> 'a series" where
  "loc_slice lo hi s = takeWhile (\<lambda>p. fst p \<le> hi) (dropWhile (\<lambda>p. fst p < lo) s)"

definition tasmax_year_xr :: "int \<Rightarrow> 'a series \<Rightarrow> 'a series" where
  "tasmax_year_xr year tasmax_xr = loc_slice (time_start year) (time_end year) tasmax_xr"

text \<open>The calendar year as the specification delimits it: from 1 January 00:00:00 to
  31 December 23:59:59.\<close>

definition in_year :: "int \<Rightarrow> timestamp \<Rightarrow> bool" where
  "in_year year t \<longleftrightarrow> (year, 1, 1, 0, 0, 0) \<le> t \<and> t \<le> (year, 12, 31, 23, 59, 59)"

definition at_noon :: "timestamp \<Rightarrow> bool" where
  "at_noon t \<longleftrightarrow> (case t of (y, mo, d, h, mi, s) \<Rightarrow> h = 12 \<and> mi = 0 \<and> s = 0)"

section \<open>Summer days notebook: temperature at the grid point and the count\<close>

text \<open>
  Temperatures are floating-point numbers and a missing value is NaN. A value is modelled as
  NaN, an infinity or an exact real (rounding is outside the model); \<open>flt_gt\<close> and
  \<open>flt_sub\<close> are the comparison \<^verbatim>\<open>>\<close> and the subtraction of IEEE arithmetic on them.
\<close>

datatype flt = NaN | NegInf | Fin real | PosInf

fun flt_gt :: "flt \<Rightarrow> flt \<Rightarrow> bool" where
  "flt_gt NaN w = False"
| "flt_gt v NaN = False"
| "flt_gt NegInf w = False"
| "flt_gt v NegInf = True"
| "flt_gt PosInf PosInf = False"
| "flt_gt PosInf (Fin b) = True"
| "flt_gt (Fin a) PosInf = False"
| "flt_gt (Fin a) (Fin b) = (b < a)"

fun flt_sub :: "flt \<Rightarrow> flt \<Rightarrow> flt" where
  "flt_sub NaN w = NaN"
| "flt_sub v NaN = NaN"
| "flt_sub PosInf PosInf = NaN"
| "flt_sub NegInf NegInf = NaN"
| "flt_sub PosInf w = PosInf"
| "flt_sub NegInf w = NegInf"
| "flt_sub (Fin a) PosInf = NegInf"
| "flt_sub (Fin a) NegInf = PosInf"
| "flt_sub (Fin a) (Fin b) = Fin (a - b)"

type_synonym field = "flt list list"

text \<open>
  \<^verbatim>\<open>tasmax_year_place_xr = tasmax_year_xr[:, yloc, xloc] - 273.15 # Convert Kelvin to \<degree>C\<close>

  The dimensions are (time, lat, lon): \<open>yloc\<close> indexes the latitude, \<open>xloc\<close> the longitude of
  every field, and an index outside the field is an IndexError.
\<close>

definition kelvin_at :: "nat \<Rightarrow> nat \<Rightarrow> field \<Rightarrow> flt" where
  "kelvin_at yloc xloc f = f ! yloc ! xloc"

definition tasmax_year_place_xr :: "nat \<Rightarrow> nat \<Rightarrow> field series \<Rightarrow> error + flt series" where
  "tasmax_year_place_xr yloc xloc tasmax_year =
     (if \<forall>p \<in> set tasmax_year. yloc < length (snd p) \<and> xloc < length (snd p ! yloc)
      then Inr (map (\<lambda>p. (fst p, flt_sub (kelvin_at yloc xloc (snd p)) (Fin 273.15))) tasmax_year)
      else Inl IndexError)"

text \<open>
  \<^verbatim>\<open>no_summer_days_model = tasmax_year_place_xr[tasmax_year_place_xr > 25].size\<close>

  \<open>count_exceeding\<close> is this expression with the literal 25 as a parameter: the number of
  values the mask \<^verbatim>\<open>values > threshold\<close> keeps.
\<close>

definition count_exceeding :: "flt \<Rightarrow> flt list \<Rightarrow> nat" where
  "count_exceeding threshold vs = length (filter (\<lambda>v. flt_gt v threshold) vs)"

definition no_summer_days_model :: "flt series \<Rightarrow> nat" where
  "no_summer_days_model place = count_exceeding (Fin 25) (map snd place)"

text \<open>A summer day read off the source value in Kelvin.\<close>

fun summer_day_kelvin :: "flt \<Rightarrow> bool" where
  "summer_day_kelvin (Fin k) = (k - 273.15 > 25)"
| "summer_day_kelvin PosInf = True"
| "summer_day_kelvin NegInf = False"
| "summer_day_kelvin NaN = False"

section \<open>Multimodel notebook: models with a historical and an ssp245 run\<close>

text \<open>
  A directory listing is a list of file names. Python compares strings character by
  character and \<^verbatim>\<open>list.sort\<close> is ascending; dictionaries keep the order in which their keys
  were first inserted (the notebook records Python 3.7), so a dictionary is an association
  list and \<^verbatim>\<open>d[k] = v\<close> is \<open>AList.update\<close>.
\<close>

text \<open>\<^verbatim>\<open>str.split('_')\<close>: the fields between underscores, empty fields included.\<close>

fun split :: "char \<Rightarrow> string \<Rightarrow> string list" where
  "split sep [] = [[]]"
| "split sep (ch # rest) =
     (if ch = sep then [] # split sep rest
      else (case split sep rest of w # ws \<Rightarrow> (ch # w) # ws | [] \<Rightarrow> [[ch]]))"

text \<open>\<^verbatim>\<open>filename.split('_')[k]\<close>, an IndexError when there are not that many fields.\<close>

definition field_of :: "nat \<Rightarrow> string \<Rightarrow> error + string" where
  "field_of k filename =
     (let parts = split (CHR ''_'') filename in
      if k < length parts then Inr (parts ! k) else Inl IndexError)"

text \<open>A list comprehension whose element expression can raise: the first exception ends
  it.\<close>

fun comprehension :: "('a \<Rightarrow> error + 'b) \<Rightarrow> 'a list \<Rightarrow> error + 'b list" where
  "comprehension f [] = Inr []"
| "comprehension f (x # xs) =
     (case f x of
        Inl e \<Rightarrow> Inl e
      | Inr y \<Rightarrow> (case comprehension f xs of Inl e \<Rightarrow> Inl e | Inr ys \<Rightarrow> Inr (y # ys)))"

text \<open>
  \<^verbatim>\<open>
  files_hist = os.listdir(datdir_hist)
  files_hist.sort()
  subs = '_r1i1'
  r1_files_hist = [model for model in files_hist if subs in model]
  models = [filename.split('_')[2] for filename in r1_files_hist]
  unique_models = list(dict.fromkeys(models))
  \<close>
\<close>

definition subs :: string where
  "subs = ''_r1i1''"

definition r1_files :: "string list \<Rightarrow> string list" where
  "r1_files listing = filter (\<lambda>m. sublist subs m) (sort listing)"

definition models :: "string list \<Rightarrow> error + string list" where
  "models r1 = comprehension (field_of 2) r1"

definition dict_fromkeys :: "'k list \<Rightarrow> ('k \<times> unit) list" where
  "dict_fromkeys ks = fold (\<lambda>k d. AList.update k () d) ks []"

definition unique_models :: "string list \<Rightarrow> string list" where
  "unique_models ms = map fst (dict_fromkeys ms)"

text \<open>
  \<^verbatim>\<open>
  modelversions_latest_hist = {}
  for model in unique_models:
      model_files_hist = [filename for filename in r1_files_hist if model in filename]
      versions = [filename.split('_')[7] for filename in model_files_hist]
      versions.sort()
      modelversions_latest_hist[model]=versions[-1]
  \<close>
\<close>

definition latest_version :: "string list \<Rightarrow> string \<Rightarrow> error + string" where
  "latest_version r1 m =
     (let model_files = filter (\<lambda>filename. sublist m filename) r1 in
      case comprehension (field_of 7) model_files of
        Inl e \<Rightarrow> Inl e
      | Inr versions \<Rightarrow>
          (case sort versions of [] \<Rightarrow> Inl IndexError | v # vs \<Rightarrow> Inr (last (v # vs))))"

fun latest_loop ::
  "string list \<Rightarrow> string list \<Rightarrow> (string \<times> string) list \<Rightarrow> error + (string \<times> string) list" where
  "latest_loop r1 [] d = Inr d"
| "latest_loop r1 (m # rest) d =
     (case latest_version r1 m of
        Inl e \<Rightarrow> Inl e
      | Inr v \<Rightarrow> latest_loop r1 rest (AList.update m v d))"

definition modelversions_latest :: "string list \<Rightarrow> error + (string \<times> string) list" where
  "modelversions_latest listing =
     (let r1 = r1_files listing in
      case models r1 of
        Inl e \<Rightarrow> Inl e
      | Inr ms \<Rightarrow> latest_loop r1 (unique_models ms) [])"

text \<open>
  \<^verbatim>\<open>
  model_list = []
  for key in modelversions_latest_hist:
      if key in modelversions_latest_ssp245:
          model_list.append(key)
  \<close>
\<close>

definition model_list :: "(string \<times> string) list \<Rightarrow> (string \<times> string) list \<Rightarrow> string list" where
  "model_list modelversions_latest_hist modelversions_latest_ssp245 =
     filter (\<lambda>key. map_of modelversions_latest_ssp245 key \<noteq> None)
       (map fst modelversions_latest_hist)"

text \<open>The two cells in sequence, from the two directory listings.\<close>

definition models_with_both :: "string list \<Rightarrow> string list \<Rightarrow> error + string list" where
  "models_with_both files_hist files_ssp245 =
     (case modelversions_latest files_hist of
        Inl e \<Rightarrow> Inl e
      | Inr dh \<Rightarrow>
          (case modelversions_latest files_ssp245 of
             Inl e \<Rightarrow> Inl e
           | Inr ds \<Rightarrow> Inr (model_list dh ds)))"

text \<open>The model names of a listing: the third field of every file name with
  \<^verbatim>\<open>_r1i1\<close> in it, in the order of the sorted listing.\<close>

definition listed_models :: "string list \<Rightarrow> string list" where
  "listed_models listing = map (\<lambda>filename. split (CHR ''_'') filename ! 2) (r1_files listing)"

section \<open>Multimodel notebook: the scenario series with the last historical year in front\<close>

text \<open>
  A loaded series is a one-dimensional labelled array: its values, the time coordinate of
  the same length, and the attribute \<^verbatim>\<open>model\<close> (absent until it is assigned).
\<close>

record dataarray =
  "values" :: "flt list"
  time :: "timestamp list"
  model :: "string option"

text \<open>
  \<^verbatim>\<open>
  ds_merged_ssp245 = []
  for i in list(range(0,len(ds_hist))):
      tas_array = np.concatenate((np.array([ds_hist[i].values[-1]]),ds_ssp245[i].values))
      time_array = np.concatenate((np.array([ds_hist[i]['time'].values[-1]]),ds_ssp245[i]['time'].values))
      timeseries = xr.DataArray(data=tas_array,coords=[time_array],dims='time')
      if ds_hist[i].attrs['model'] is ds_ssp245[i].attrs['model']:
          timeseries.attrs['model'] = ds_hist[i].attrs['model']
      else:
          print('model names do not match')
      ds_merged_ssp245.append(timeseries)
  \<close>
  Both attributes are assigned from the same entry of \<open>model_list\<close> when the series are
  loaded, so the identity test is modelled as equality.
\<close>

definition last_of :: "'a list \<Rightarrow> error + 'a" where
  "last_of xs = (case xs of [] \<Rightarrow> Inl IndexError | y # ys \<Rightarrow> Inr (last (y # ys)))"

definition timeseries :: "dataarray \<Rightarrow> dataarray \<Rightarrow> error + dataarray" where
  "timeseries hist ssp =
     (case last_of (values hist) of
        Inl e \<Rightarrow> Inl e
      | Inr v \<Rightarrow>
          (case last_of (time hist) of
             Inl e \<Rightarrow> Inl e
           | Inr t \<Rightarrow>
               (let tas_array = v # values ssp; time_array = t # time ssp in
                if length tas_array \<noteq> length time_array then Inl ConflictingSizes
                else Inr \<lparr>values = tas_array, time = time_array,
                          model = (if model hist = model ssp then model hist else None)\<rparr>)))"

function merge_loop ::
  "dataarray list \<Rightarrow> dataarray list \<Rightarrow> nat \<Rightarrow> dataarray list \<Rightarrow> error + dataarray list" where
  "merge_loop hist ssp i merged =
     (if i < length hist then
        (if i < length ssp then
           (case timeseries (hist ! i) (ssp ! i) of
              Inl e \<Rightarrow> Inl e
            | Inr ts \<Rightarrow> merge_loop hist ssp (Suc i) (merged @ [ts]))
         else Inl IndexError)
      else Inr merged)"
  by pat_completeness auto
termination
  by (relation "measure (\<lambda>(hist, ssp, i, merged). length hist - i)") auto

declare merge_loop.simps [simp del]

text \<open>The variables of the notebook that the cell reads and writes.\<close>

record notebook =
  ds_hist :: "dataarray list"
  ds_ssp245 :: "dataarray list"
  ds_merged_ssp245 :: "dataarray list"

definition concatenate_cell :: "notebook \<Rightarrow> error + notebook" where
  "concatenate_cell nb =
     (case merge_loop (ds_hist nb) (ds_ssp245 nb) 0 [] of
        Inl e \<Rightarrow> Inl e
      | Inr merged \<Rightarrow> Inr (nb\<lparr>ds_merged_ssp245 := merged\<rparr>))"

section \<open>The nearest grid point: proofs\<close>

lemma set_true_positions:
  "set (true_positions b) = {(i, j). i < length b \<and> j < length (b ! i) \<and> b ! i ! j}"
  by (auto simp: true_positions_def)



lemma np_min_cases:
  "np_min c = (if concat c = [] then Inl ZeroSizeArray else Inr (Min (set (concat c))))"
proof (cases "concat c")
  case Nil
  show ?thesis unfolding np_min_def Nil by simp
next
  case (Cons v vs)
  show ?thesis unfolding np_min_def Cons
    by (simp add: Min.set_eq_fold [symmetric])
qed

lemma concat_np_maximum_empty: "concat (np_maximum as bs) = [] \<longleftrightarrow> as = [] \<or> bs = []"
  by (cases bs) (auto simp: np_maximum_def)

lemma unpack_positions:
  "(case np_where b of
      (xs, ys) \<Rightarrow>
        (case unpack1 xs of
           Inl e \<Rightarrow> Inl e
         | Inr xloc \<Rightarrow> (case unpack1 ys of Inl e \<Rightarrow> Inl e | Inr yloc \<Rightarrow> Inr (xloc, yloc)))) =
   (case true_positions b of
      [] \<Rightarrow> Inl NotEnoughValues
    | [p] \<Rightarrow> Inr p
    | p # q # ps \<Rightarrow> Inl TooManyValues)"
  by (cases "true_positions b" rule: unpack1.cases) (simp_all add: np_where_def)

lemma nearest_cases:
  "nearest_grid_point lat lon latitude longitude =
     (if lat = [] \<or> lon = [] then Inl ZeroSizeArray
      else (case minimum_positions lat lon latitude longitude of
              [] \<Rightarrow> Inl NotEnoughValues
            | [p] \<Rightarrow> Inr p
            | p # q # ps \<Rightarrow> Inl TooManyValues))"
proof -
  define c where "c = np_maximum (abslon lon longitude) (abslat lat latitude)"
  have e: "concat c = [] \<longleftrightarrow> lat = [] \<or> lon = []"
    unfolding c_def concat_np_maximum_empty by (auto simp: abslon_def abslat_def)
  show ?thesis
  proof (cases "lat = [] \<or> lon = []")
    case True
    with e have "np_min c = Inl ZeroSizeArray" by (simp only: np_min_cases if_True)
    with True show ?thesis
      unfolding nearest_grid_point_def Let_def c_def [symmetric] by simp
  next
    case False
    with e have "np_min c = Inr (Min (set (concat c)))" by (simp only: np_min_cases if_False)
    with False show ?thesis
      unfolding nearest_grid_point_def minimum_positions_def Let_def c_def [symmetric]
      by (simp only: sum.case unpack_positions if_False)
  qed
qed

lemma in_set_concat_nth:
  "x \<in> set (concat c) \<longleftrightarrow> (\<exists>i<length c. \<exists>j<length (c ! i). c ! i ! j = x)"
  by (fastforce simp: in_set_conv_nth)

lemma set_minimum_positions:
  assumes "lat \<noteq> []" "lon \<noteq> []"
  shows "set (minimum_positions lat lon latitude longitude) =
           {(i, j). nearest_at lat lon latitude longitude i j}"
proof -
  define c where "c = np_maximum (abslon lon longitude) (abslat lat latitude)"
  define m where "m = Min (set (concat c))"
  have len: "length c = length lon"
    by (simp add: c_def np_maximum_def abslon_def)
  have row: "length (c ! i) = length lat" if "i < length lon" for i
    using that by (simp add: c_def np_maximum_def abslon_def abslat_def)
  have entry: "c ! i ! j = chebyshev lat lon latitude longitude i j"
    if "i < length lon" "j < length lat" for i j
    using that by (simp add: c_def np_maximum_def abslon_def abslat_def chebyshev_def)
  have least: "c ! i ! j = m \<longleftrightarrow>
      (\<forall>i' < length lon. \<forall>j' < length lat. c ! i ! j \<le> c ! i' ! j')"
    if "i < length lon" "j < length lat" for i j
  proof
    assume "c ! i ! j = m"
    then show "\<forall>i' < length lon. \<forall>j' < length lat. c ! i ! j \<le> c ! i' ! j'"
      unfolding m_def using in_set_concat_nth [of _ c] len row by (metis List.finite_set Min_le)
  next
    assume a: "\<forall>i' < length lon. \<forall>j' < length lat. c ! i ! j \<le> c ! i' ! j'"
    have "\<exists>i'<length c. \<exists>j'<length (c ! i'). c ! i' ! j' = c ! i ! j"
      using that len row [OF that(1)] by (intro exI [of _ i] conjI exI [of _ j]) simp_all
    then have "c ! i ! j \<in> set (concat c)"
      unfolding in_set_concat_nth .
    moreover have "c ! i ! j \<le> y" if "y \<in> set (concat c)" for y
      using that a len row in_set_concat_nth [of y c] by auto
    ultimately have "Min (set (concat c)) = c ! i ! j"
      by (intro Min_eqI) auto
    then show "c ! i ! j = m" by (simp add: m_def)
  qed
  have "set (true_positions (map (map (\<lambda>v. v = m)) c)) =
          {(i, j). i < length lon \<and> j < length lat \<and> c ! i ! j = m}"
    unfolding set_true_positions using len row by auto
  also have "\<dots> = {(i, j). nearest_at lat lon latitude longitude i j}"
  proof -
    have "i < length lon \<and> j < length lat \<and> c ! i ! j = m \<longleftrightarrow>
        nearest_at lat lon latitude longitude i j" for i j
    proof (cases "i < length lon \<and> j < length lat")
      case True
      then show ?thesis
        using least [of i j] entry by (simp add: nearest_at_def)
    next
      case False
      then show ?thesis
        by (auto simp: nearest_at_def)
    qed
    then show ?thesis by simp
  qed
  finally show ?thesis
    unfolding minimum_positions_def Let_def c_def [symmetric] m_def [symmetric] .
qed






text \<open>
  Claim C5 says that with several nearest grid points the cell takes the first one. For the
  latitudes 52 and 54, the longitude 10 and the location (53, 10) both grid points are
  nearest, and the cell does not assign the first of them.
\<close>

theorem ties_counterexample:
  "nearest_at [52, 54] [10] 53 10 0 0 \<and> nearest_at [52, 54] [10] 53 10 0 1 \<and>
   nearest_grid_point [52, 54] [10] 53 10 \<noteq> Inr (0, 0)"
proof -
  have "nearest_grid_point [52, 54] [10] 53 10 = Inl TooManyValues"
    by code_simp
  then show ?thesis
    by (simp add: nearest_at_def chebyshev_def less_Suc_eq numeral_2_eq_2)
qed

text \<open>
  Claim C5, amended. Whenever two different grid points are both nearest, the cell assigns
  no indices: unpacking into \<^verbatim>\<open>[xloc]\<close> raises, because \<^verbatim>\<open>np.where\<close> returns more
  than one position.
\<close>

theorem ties_fail:
  assumes "nearest_at lat lon latitude longitude i j"
    and "nearest_at lat lon latitude longitude i' j'"
    and "(i, j) \<noteq> (i', j')"
  shows "nearest_grid_point lat lon latitude longitude = Inl TooManyValues"
proof -
  from assms(1) have ne: "lat \<noteq> []" "lon \<noteq> []"
    by (auto simp: nearest_at_def)
  have "(i, j) \<in> set (minimum_positions lat lon latitude longitude)"
    and "(i', j') \<in> set (minimum_positions lat lon latitude longitude)"
    using assms(1,2) unfolding set_minimum_positions [OF ne] by simp_all
  with assms(3) obtain p q ps where "minimum_positions lat lon latitude longitude = p # q # ps"
    by (cases "minimum_positions lat lon latitude longitude" rule: unpack1.cases) auto
  with ne show ?thesis
    by (simp add: nearest_cases)
qed

theorem ties_fail_witness:
  "nearest_grid_point [52, 54] [8, 10] 53 9 = Inl TooManyValues"
proof -
  have a: "nearest_at [52, 54] [8, 10] 53 9 0 0"
    by (simp add: nearest_at_def chebyshev_def less_Suc_eq numeral_2_eq_2)
  have b: "nearest_at [52, 54] [8, 10] 53 9 1 1"
    by (simp add: nearest_at_def chebyshev_def less_Suc_eq numeral_2_eq_2)
  show ?thesis
    using ties_fail [OF a b] by simp
qed




section \<open>The selected year: proofs\<close>

lemma dropWhile_sorted_filter:
  fixes f :: "'a \<Rightarrow> 'b::linorder"
  shows "sorted (map f xs) \<Longrightarrow> dropWhile (\<lambda>x. f x < lo) xs = filter (\<lambda>x. lo \<le> f x) xs"
proof (induction xs)
  case Nil
  then show ?case by simp
next
  case (Cons x xs)
  show ?case
  proof (cases "f x < lo")
    case True
    with Cons show ?thesis by simp
  next
    case False
    with Cons.prems have "\<forall>y \<in> set xs. lo \<le> f y"
      by auto
    then have "filter (\<lambda>x. lo \<le> f x) xs = xs"
      by (simp add: filter_id_conv)
    with False show ?thesis by simp
  qed
qed

lemma takeWhile_sorted_filter:
  fixes f :: "'a \<Rightarrow> 'b::linorder"
  shows "sorted (map f xs) \<Longrightarrow> takeWhile (\<lambda>x. f x \<le> hi) xs = filter (\<lambda>x. f x \<le> hi) xs"
proof (induction xs)
  case Nil
  then show ?case by simp
next
  case (Cons x xs)
  show ?case
  proof (cases "f x \<le> hi")
    case True
    with Cons show ?thesis by simp
  next
    case False
    with Cons.prems have "\<forall>y \<in> set xs. \<not> f y \<le> hi"
      by auto
    then have "filter (\<lambda>x. f x \<le> hi) xs = []"
      by (simp add: filter_empty_conv)
    with False show ?thesis by simp
  qed
qed

lemma loc_slice_sorted:
  assumes "sorted (map fst s)"
  shows "loc_slice lo hi s = filter (\<lambda>p. lo \<le> fst p \<and> fst p \<le> hi) s"
proof -
  have "sorted (map fst (filter (\<lambda>p. lo \<le> fst p) s))"
    using assms by (rule sorted_filter)
  then show ?thesis
    unfolding loc_slice_def dropWhile_sorted_filter [OF assms]
    by (simp add: takeWhile_sorted_filter conj_commute)
qed

lemma time_start_in_year: "time_start year \<le> t \<Longrightarrow> (year, 1, 1, 0, 0, 0) \<le> t"
proof -
  have "(year, 1, 1, 0, 0, 0) \<le> time_start year"
    by (simp add: time_start_def)
  then show "time_start year \<le> t \<Longrightarrow> (year, 1, 1, 0, 0, 0) \<le> t"
    by (rule order_trans)
qed

lemma time_end_in_year: "t \<le> time_end year \<Longrightarrow> t \<le> (year, 12, 31, 23, 59, 59)"
proof -
  have "time_end year \<le> (year, 12, 31, 23, 59, 59)"
    by (simp add: time_end_def)
  then show "t \<le> time_end year \<Longrightarrow> t \<le> (year, 12, 31, 23, 59, 59)"
    by (rule order_trans [rotated])
qed

lemma selected_in_year: "time_start year \<le> t \<Longrightarrow> t \<le> time_end year \<Longrightarrow> in_year year t"
  unfolding in_year_def by (intro conjI time_start_in_year time_end_in_year)

lemma noon_in_year:
  "at_noon t \<Longrightarrow> in_year year t \<longleftrightarrow> time_start year \<le> t \<and> t \<le> time_end year"
  by (cases t) (auto simp: at_noon_def in_year_def time_start_def time_end_def)

text \<open>
  Claim C2 says that the selected year holds every sample from 1 January 00:00:00 on. A
  sample stamped 2015-01-01T00:00:00 lies in the year 2015 and is not selected.
\<close>

theorem year_slice_counterexample:
  "in_year 2015 (2015, 1, 1, 0, 0, 0) \<and>
   ((2015, 1, 1, 0, 0, 0), [[Fin 280]]) \<notin>
     set (tasmax_year_xr 2015 [((2015, 1, 1, 0, 0, 0), [[Fin 280]]), ((2015, 1, 1, 12, 0, 0), [[Fin 281]])])"
  by (simp add: in_year_def tasmax_year_xr_def loc_slice_def time_start_def time_end_def)

text \<open>
  Claim C2, amended. On an increasing time axis the selected year is exactly the samples
  stamped from 1 January 12:00:00 to 31 December 12:00:00 of the year, in their order; every
  one of them lies in the calendar year; and when every sample is stamped at 12:00:00 the
  selected year is exactly the samples of the calendar year.
\<close>

theorem year_slice:
  assumes "sorted (map fst tasmax_xr)"
  shows "tasmax_year_xr year tasmax_xr =
           filter (\<lambda>p. time_start year \<le> fst p \<and> fst p \<le> time_end year) tasmax_xr \<and>
         (\<forall>p \<in> set (tasmax_year_xr year tasmax_xr). p \<in> set tasmax_xr \<and> in_year year (fst p)) \<and>
         ((\<forall>p \<in> set tasmax_xr. at_noon (fst p)) \<longrightarrow>
            tasmax_year_xr year tasmax_xr = filter (\<lambda>p. in_year year (fst p)) tasmax_xr)"
proof -
  have eq: "tasmax_year_xr year tasmax_xr =
      filter (\<lambda>p. time_start year \<le> fst p \<and> fst p \<le> time_end year) tasmax_xr"
    unfolding tasmax_year_xr_def by (rule loc_slice_sorted [OF assms])
  have sound: "\<forall>p \<in> set (tasmax_year_xr year tasmax_xr). p \<in> set tasmax_xr \<and> in_year year (fst p)"
    unfolding eq by (simp add: selected_in_year)
  have noon: "tasmax_year_xr year tasmax_xr = filter (\<lambda>p. in_year year (fst p)) tasmax_xr"
    if "\<forall>p \<in> set tasmax_xr. at_noon (fst p)"
    unfolding eq using that by (intro filter_cong refl) (simp add: noon_in_year)
  from eq sound noon show ?thesis by blast
qed

theorem year_slice_witness:
  "sorted (map fst
     [((2014::int, 12::nat, 1::nat, 12::nat, 0::nat, 0::nat), [[Fin 270]]), ((2015, 1, 1, 12, 0, 0), [[Fin 271]]),
      ((2015, 12, 31, 12, 0, 0), [[Fin 272]]), ((2016, 1, 31, 12, 0, 0), [[Fin 273]])]) \<and>
   tasmax_year_xr 2015
     [((2014, 12, 1, 12, 0, 0), [[Fin 270]]), ((2015, 1, 1, 12, 0, 0), [[Fin 271]]),
      ((2015, 12, 31, 12, 0, 0), [[Fin 272]]), ((2016, 1, 31, 12, 0, 0), [[Fin 273]])] =
   [((2015, 1, 1, 12, 0, 0), [[Fin 271]]), ((2015, 12, 31, 12, 0, 0), [[Fin 272]])]"
proof -
  have s: "sorted (map fst
     [((2014::int, 12::nat, 1::nat, 12::nat, 0::nat, 0::nat), [[Fin 270]]), ((2015, 1, 1, 12, 0, 0), [[Fin 271]]),
      ((2015, 12, 31, 12, 0, 0), [[Fin 272]]), ((2016, 1, 31, 12, 0, 0), [[Fin 273]])])"
    by simp
  have "tasmax_year_xr 2015
     [((2014, 12, 1, 12, 0, 0), [[Fin 270]]), ((2015, 1, 1, 12, 0, 0), [[Fin 271]]),
      ((2015, 12, 31, 12, 0, 0), [[Fin 272]]), ((2016, 1, 31, 12, 0, 0), [[Fin 273]])] =
    filter (\<lambda>p. time_start 2015 \<le> fst p \<and> fst p \<le> time_end 2015)
     [((2014, 12, 1, 12, 0, 0), [[Fin 270]]), ((2015, 1, 1, 12, 0, 0), [[Fin 271]]),
      ((2015, 12, 31, 12, 0, 0), [[Fin 272]]), ((2016, 1, 31, 12, 0, 0), [[Fin 273]])]"
    using year_slice [OF s, of 2015] by (rule conjunct1)
  also have "\<dots> = [((2015, 1, 1, 12, 0, 0), [[Fin 271]]), ((2015, 12, 31, 12, 0, 0), [[Fin 272]])]"
    by (simp add: time_start_def time_end_def)
  finally show ?thesis
    using s by (rule conjI [rotated])
qed




section \<open>Temperature at the grid point and the count: proofs\<close>





lemma celsius_summer_day: "flt_gt (flt_sub v (Fin 273.15)) (Fin 25) = summer_day_kelvin v"
  by (cases v) simp_all



text \<open>
  Claim C4. The temperatures at the grid point are the source values in Kelvin minus
  273.15, at the same time stamps, and the number of summer days is the number of samples
  whose Kelvin value \<open>v\<close> satisfies \<open>v - 273.15 > 25\<close>; the selection succeeds whenever the
  indices lie inside every field.
\<close>

theorem summer_days_from_kelvin:
  "(tasmax_year_place_xr yloc xloc tasmax_year = Inr place \<longrightarrow>
      map fst place = map fst tasmax_year \<and>
      map snd place = map (\<lambda>p. flt_sub (kelvin_at yloc xloc (snd p)) (Fin 273.15)) tasmax_year \<and>
      no_summer_days_model place =
        length (filter (\<lambda>p. summer_day_kelvin (kelvin_at yloc xloc (snd p))) tasmax_year)) \<and>
   ((\<forall>p \<in> set tasmax_year. yloc < length (snd p) \<and> xloc < length (snd p ! yloc)) \<longrightarrow>
      (\<exists>place. tasmax_year_place_xr yloc xloc tasmax_year = Inr place))"
proof (intro conjI impI)
  assume r: "tasmax_year_place_xr yloc xloc tasmax_year = Inr place"
  then have p: "place = map (\<lambda>p. (fst p, flt_sub (kelvin_at yloc xloc (snd p)) (Fin 273.15))) tasmax_year"
    by (auto simp: tasmax_year_place_xr_def split: if_splits)
  show "map fst place = map fst tasmax_year"
    by (simp add: p comp_def)
  show "map snd place = map (\<lambda>p. flt_sub (kelvin_at yloc xloc (snd p)) (Fin 273.15)) tasmax_year"
    by (simp add: p comp_def)
  show "no_summer_days_model place =
        length (filter (\<lambda>p. summer_day_kelvin (kelvin_at yloc xloc (snd p))) tasmax_year)"
    unfolding p no_summer_days_model_def count_exceeding_def
    by (simp only: map_map filter_map length_map o_def snd_conv celsius_summer_day)
next
  assume "\<forall>p \<in> set tasmax_year. yloc < length (snd p) \<and> xloc < length (snd p ! yloc)"
  then show "\<exists>place. tasmax_year_place_xr yloc xloc tasmax_year = Inr place"
    by (simp add: tasmax_year_place_xr_def)
qed

theorem summer_days_from_kelvin_witness:
  "tasmax_year_place_xr 0 1
     [((2015, 7, 1, 12, 0, 0), [[Fin 290, Fin 298.15]]), ((2015, 7, 2, 12, 0, 0), [[Fin 290, Fin 299]])] =
     Inr [((2015, 7, 1, 12, 0, 0), Fin 25), ((2015, 7, 2, 12, 0, 0), Fin 25.85)] \<and>
   no_summer_days_model [((2015, 7, 1, 12, 0, 0), Fin 25), ((2015, 7, 2, 12, 0, 0), Fin 25.85)] = 1"
proof -
  have r: "tasmax_year_place_xr 0 1
     [((2015, 7, 1, 12, 0, 0), [[Fin 290, Fin 298.15]]), ((2015, 7, 2, 12, 0, 0), [[Fin 290, Fin 299]])] =
     Inr [((2015, 7, 1, 12, 0, 0), Fin 25), ((2015, 7, 2, 12, 0, 0), Fin 25.85)]"
    by (simp add: tasmax_year_place_xr_def kelvin_at_def)
  have "no_summer_days_model [((2015, 7, 1, 12, 0, 0), Fin 25), ((2015, 7, 2, 12, 0, 0), Fin 25.85)] =
      length (filter (\<lambda>p. summer_day_kelvin (kelvin_at 0 1 (snd p)))
        [((2015::int, 7::nat, 1::nat, 12::nat, 0::nat, 0::nat), [[Fin 290, Fin 298.15]]), ((2015, 7, 2, 12, 0, 0), [[Fin 290, Fin 299]])])"
    using r summer_days_from_kelvin by blast
  also have "\<dots> = 1"
    by (simp add: kelvin_at_def)
  finally show ?thesis
    using r by simp
qed



section \<open>The scenario series with the last historical year in front: proofs\<close>

lemma timeseries_Inr:
  "timeseries hist ssp = Inr ts \<longleftrightarrow>
     values hist \<noteq> [] \<and> time hist \<noteq> [] \<and> length (values ssp) = length (time ssp) \<and>
     ts = \<lparr>values = last (values hist) # values ssp, time = last (time hist) # time ssp,
           model = (if model hist = model ssp then model hist else None)\<rparr>"
  by (cases "values hist"; cases "time hist") (auto simp: timeseries_def last_of_def Let_def)

lemma merge_loop_Inr:
  "merge_loop hist ssp i merged = Inr ms \<Longrightarrow>
     \<exists>new. ms = merged @ new \<and> length new = length hist - i \<and>
       (\<forall>k < length new. i + k < length ssp \<and>
          timeseries (hist ! (i + k)) (ssp ! (i + k)) = Inr (new ! k))"
proof (induction hist ssp i merged rule: merge_loop.induct)
  case (1 hist ssp i merged)
  note unfold = merge_loop.simps [of hist ssp i merged]
  show ?case
  proof (cases "i < length hist")
    case False
    with "1.prems" unfold show ?thesis by simp
  next
    case True
    with "1.prems" unfold have s: "i < length ssp"
      by (simp split: if_splits)
    with True "1.prems" unfold obtain ts where ts: "timeseries (hist ! i) (ssp ! i) = Inr ts"
      and r: "merge_loop hist ssp (Suc i) (merged @ [ts]) = Inr ms"
      by (cases "timeseries (hist ! i) (ssp ! i)") simp_all
    from "1.IH" [OF True s ts r] obtain new where new: "ms = (merged @ [ts]) @ new"
      "length new = length hist - Suc i"
      "\<forall>k < length new. Suc i + k < length ssp \<and>
          timeseries (hist ! (Suc i + k)) (ssp ! (Suc i + k)) = Inr (new ! k)"
      by blast
    have "\<forall>k < length (ts # new). i + k < length ssp \<and>
          timeseries (hist ! (i + k)) (ssp ! (i + k)) = Inr ((ts # new) ! k)"
    proof (intro allI impI)
      fix k assume "k < length (ts # new)"
      then show "i + k < length ssp \<and>
          timeseries (hist ! (i + k)) (ssp ! (i + k)) = Inr ((ts # new) ! k)"
        using new(3) s ts by (cases k) auto
    qed
    moreover have "ms = merged @ (ts # new)" "length (ts # new) = length hist - i"
      using new(1,2) True by auto
    ultimately show ?thesis by blast
  qed
qed

lemma merge_loop_total:
  "\<forall>k < length hist. i \<le> k \<longrightarrow> k < length ssp \<and> (\<exists>ts. timeseries (hist ! k) (ssp ! k) = Inr ts) \<Longrightarrow>
     \<exists>ms. merge_loop hist ssp i merged = Inr ms"
proof (induction hist ssp i merged rule: merge_loop.induct)
  case (1 hist ssp i merged)
  note unfold = merge_loop.simps [of hist ssp i merged]
  show ?case
  proof (cases "i < length hist")
    case False
    with unfold show ?thesis by simp
  next
    case True
    with "1.prems" obtain ts where s: "i < length ssp" and ts: "timeseries (hist ! i) (ssp ! i) = Inr ts"
      by auto
    from "1.prems" have "\<forall>k < length hist. Suc i \<le> k \<longrightarrow>
        k < length ssp \<and> (\<exists>ts. timeseries (hist ! k) (ssp ! k) = Inr ts)"
      by auto
    from "1.IH" [OF True s ts this] True s ts unfold show ?thesis
      by simp
  qed
qed

text \<open>
  Claim C9. When the cell finishes, there is one merged series for every historical series;
  the merged series at index \<open>i\<close> has one sample more than the scenario series at \<open>i\<close>: its
  first value and time stamp are the last value and time stamp of the historical series at
  \<open>i\<close>, the others are those of the scenario series in order; and the lists of historical
  and scenario series are as they were. The cell finishes whenever there is a scenario
  series for every historical series and no historical series is empty.
\<close>

theorem concatenate_cell_merges:
  "(concatenate_cell nb = Inr nb' \<longrightarrow>
      ds_hist nb' = ds_hist nb \<and> ds_ssp245 nb' = ds_ssp245 nb \<and>
      length (ds_merged_ssp245 nb') = length (ds_hist nb) \<and>
      (\<forall>i < length (ds_hist nb).
         i < length (ds_ssp245 nb) \<and> values (ds_hist nb ! i) \<noteq> [] \<and> time (ds_hist nb ! i) \<noteq> [] \<and>
         values (ds_merged_ssp245 nb' ! i) =
           last (values (ds_hist nb ! i)) # values (ds_ssp245 nb ! i) \<and>
         time (ds_merged_ssp245 nb' ! i) =
           last (time (ds_hist nb ! i)) # time (ds_ssp245 nb ! i) \<and>
         length (values (ds_merged_ssp245 nb' ! i)) = Suc (length (values (ds_ssp245 nb ! i))))) \<and>
   (length (ds_hist nb) \<le> length (ds_ssp245 nb) \<and>
    (\<forall>i < length (ds_hist nb).
       values (ds_hist nb ! i) \<noteq> [] \<and> time (ds_hist nb ! i) \<noteq> [] \<and>
       length (values (ds_ssp245 nb ! i)) = length (time (ds_ssp245 nb ! i))) \<longrightarrow>
      (\<exists>nb'. concatenate_cell nb = Inr nb'))"
proof (intro conjI impI)
  assume r: "concatenate_cell nb = Inr nb'"
  then obtain ms where ms: "merge_loop (ds_hist nb) (ds_ssp245 nb) 0 [] = Inr ms"
    and nb': "nb' = nb\<lparr>ds_merged_ssp245 := ms\<rparr>"
    by (auto simp: concatenate_cell_def split: sum.splits)
  from merge_loop_Inr [OF ms] have len: "length ms = length (ds_hist nb)"
    and each: "\<forall>k < length ms. k < length (ds_ssp245 nb) \<and>
          timeseries (ds_hist nb ! k) (ds_ssp245 nb ! k) = Inr (ms ! k)"
    by auto
  show "ds_hist nb' = ds_hist nb" "ds_ssp245 nb' = ds_ssp245 nb"
    by (simp_all add: nb')
  show "length (ds_merged_ssp245 nb') = length (ds_hist nb)"
    by (simp add: nb' len)
  show "\<forall>i < length (ds_hist nb).
         i < length (ds_ssp245 nb) \<and> values (ds_hist nb ! i) \<noteq> [] \<and> time (ds_hist nb ! i) \<noteq> [] \<and>
         values (ds_merged_ssp245 nb' ! i) =
           last (values (ds_hist nb ! i)) # values (ds_ssp245 nb ! i) \<and>
         time (ds_merged_ssp245 nb' ! i) =
           last (time (ds_hist nb ! i)) # time (ds_ssp245 nb ! i) \<and>
         length (values (ds_merged_ssp245 nb' ! i)) = Suc (length (values (ds_ssp245 nb ! i)))"
  proof (intro allI impI)
    fix i assume "i < length (ds_hist nb)"
    with len each have "i < length (ds_ssp245 nb)"
      and "timeseries (ds_hist nb ! i) (ds_ssp245 nb ! i) = Inr (ms ! i)"
      by auto
    then show "i < length (ds_ssp245 nb) \<and> values (ds_hist nb ! i) \<noteq> [] \<and> time (ds_hist nb ! i) \<noteq> [] \<and>
         values (ds_merged_ssp245 nb' ! i) =
           last (values (ds_hist nb ! i)) # values (ds_ssp245 nb ! i) \<and>
         time (ds_merged_ssp245 nb' ! i) =
           last (time (ds_hist nb ! i)) # time (ds_ssp245 nb ! i) \<and>
         length (values (ds_merged_ssp245 nb' ! i)) = Suc (length (values (ds_ssp245 nb ! i)))"
      by (simp add: nb' timeseries_Inr)
  qed
next
  assume a: "length (ds_hist nb) \<le> length (ds_ssp245 nb) \<and>
    (\<forall>i < length (ds_hist nb).
       values (ds_hist nb ! i) \<noteq> [] \<and> time (ds_hist nb ! i) \<noteq> [] \<and>
       length (values (ds_ssp245 nb ! i)) = length (time (ds_ssp245 nb ! i)))"
  then have "\<forall>k < length (ds_hist nb). 0 \<le> k \<longrightarrow> k < length (ds_ssp245 nb) \<and>
      (\<exists>ts. timeseries (ds_hist nb ! k) (ds_ssp245 nb ! k) = Inr ts)"
    by (auto simp: timeseries_Inr)
  from merge_loop_total [OF this] obtain ms
    where "merge_loop (ds_hist nb) (ds_ssp245 nb) 0 [] = Inr ms" by blast
  then show "\<exists>nb'. concatenate_cell nb = Inr nb'"
    by (simp add: concatenate_cell_def)
qed

theorem concatenate_cell_merges_witness:
  "concatenate_cell
     \<lparr>ds_hist = [\<lparr>values = [Fin 287, Fin 288], time = [(2013, 7, 31, 0, 0, 0), (2014, 7, 31, 0, 0, 0)],
                  model = Some ''MPI-ESM1-2-LR''\<rparr>],
      ds_ssp245 = [\<lparr>values = [Fin 289], time = [(2015, 7, 31, 0, 0, 0)], model = Some ''MPI-ESM1-2-LR''\<rparr>],
      ds_merged_ssp245 = []\<rparr> =
   Inr \<lparr>ds_hist = [\<lparr>values = [Fin 287, Fin 288], time = [(2013, 7, 31, 0, 0, 0), (2014, 7, 31, 0, 0, 0)],
                  model = Some ''MPI-ESM1-2-LR''\<rparr>],
      ds_ssp245 = [\<lparr>values = [Fin 289], time = [(2015, 7, 31, 0, 0, 0)], model = Some ''MPI-ESM1-2-LR''\<rparr>],
      ds_merged_ssp245 =
        [\<lparr>values = [Fin 288, Fin 289], time = [(2014, 7, 31, 0, 0, 0), (2015, 7, 31, 0, 0, 0)],
          model = Some ''MPI-ESM1-2-LR''\<rparr>]\<rparr> \<and>
   values (ds_merged_ssp245
     \<lparr>ds_hist = [\<lparr>values = [Fin 287, Fin 288], time = [(2013, 7, 31, 0, 0, 0), (2014, 7, 31, 0, 0, 0)],
                  model = Some ''MPI-ESM1-2-LR''\<rparr>],
      ds_ssp245 = [\<lparr>values = [Fin 289], time = [(2015, 7, 31, 0, 0, 0)], model = Some ''MPI-ESM1-2-LR''\<rparr>],
      ds_merged_ssp245 =
        [\<lparr>values = [Fin 288, Fin 289], time = [(2014, 7, 31, 0, 0, 0), (2015, 7, 31, 0, 0, 0)],
          model = Some ''MPI-ESM1-2-LR''\<rparr>]\<rparr> ! 0) = [Fin 288, Fin 289]"
proof -
  have r: "concatenate_cell
     \<lparr>ds_hist = [\<lparr>values = [Fin 287, Fin 288], time = [(2013, 7, 31, 0, 0, 0), (2014, 7, 31, 0, 0, 0)],
                  model = Some ''MPI-ESM1-2-LR''\<rparr>],
      ds_ssp245 = [\<lparr>values = [Fin 289], time = [(2015, 7, 31, 0, 0, 0)], model = Some ''MPI-ESM1-2-LR''\<rparr>],
      ds_merged_ssp245 = []\<rparr> =
   Inr \<lparr>ds_hist = [\<lparr>values = [Fin 287, Fin 288], time = [(2013, 7, 31, 0, 0, 0), (2014, 7, 31, 0, 0, 0)],
                  model = Some ''MPI-ESM1-2-LR''\<rparr>],
      ds_ssp245 = [\<lparr>values = [Fin 289], time = [(2015, 7, 31, 0, 0, 0)], model = Some ''MPI-ESM1-2-LR''\<rparr>],
      ds_merged_ssp245 =
        [\<lparr>values = [Fin 288, Fin 289], time = [(2014, 7, 31, 0, 0, 0), (2015, 7, 31, 0, 0, 0)],
          model = Some ''MPI-ESM1-2-LR''\<rparr>]\<rparr>"
    by code_simp
  show ?thesis
    using r concatenate_cell_merges [THEN conjunct1, rule_format, OF r]
    by simp
qed

section \<open>Models with a historical and an ssp245 run: proofs\<close>

lemma comprehension_Inr:
  "comprehension f xs = Inr ys \<Longrightarrow> length ys = length xs \<and> (\<forall>i < length xs. f (xs ! i) = Inr (ys ! i))"
proof (induction xs arbitrary: ys)
  case Nil
  then show ?case by simp
next
  case (Cons x xs)
  from Cons.prems obtain y ys' where y: "f x = Inr y" and r: "comprehension f xs = Inr ys'"
    and ys: "ys = y # ys'"
    by (auto split: sum.splits)
  from Cons.IH [OF r] y ys show ?case
    by (auto simp: nth_Cons')
qed

lemma comprehension_total:
  "\<forall>x \<in> set xs. \<exists>y. f x = Inr y \<Longrightarrow> \<exists>ys. comprehension f xs = Inr ys"
  by (induction xs) auto

lemma comprehension_field_of:
  assumes "comprehension (field_of k) xs = Inr ys"
  shows "ys = map (\<lambda>filename. split (CHR ''_'') filename ! k) xs"
proof (rule nth_equalityI)
  from comprehension_Inr [OF assms]
  show "length ys = length (map (\<lambda>filename. split (CHR ''_'') filename ! k) xs)"
    by simp
  fix i assume "i < length ys"
  with comprehension_Inr [OF assms] have "i < length xs" "field_of k (xs ! i) = Inr (ys ! i)"
    by auto
  then show "ys ! i = map (\<lambda>filename. split (CHR ''_'') filename ! k) xs ! i"
    by (auto simp: field_of_def Let_def split: if_splits)
qed

lemma keys_fold_update:
  "map fst (fold (\<lambda>k d. AList.update k () d) ks []) = rev (remdups (rev ks))"
proof (induction ks rule: rev_induct)
  case Nil
  then show ?case by simp
next
  case (snoc k ks)
  then show ?case
    by (simp add: update_keys)
qed

lemma unique_models_first: "unique_models ms = rev (remdups (rev ms))"
  by (simp add: unique_models_def dict_fromkeys_def keys_fold_update)

lemma latest_loop_keys:
  "latest_loop r1 ums d0 = Inr d \<Longrightarrow> distinct ums \<Longrightarrow> set ums \<inter> set (map fst d0) = {} \<Longrightarrow>
     map fst d = map fst d0 @ ums"
proof (induction ums arbitrary: d0)
  case Nil
  then show ?case by simp
next
  case (Cons m rest)
  from Cons.prems(1) obtain v where v: "latest_version r1 m = Inr v"
    and r: "latest_loop r1 rest (AList.update m v d0) = Inr d"
    by (auto split: sum.splits)
  from Cons.prems(3) have k: "map fst (AList.update m v d0) = map fst d0 @ [m]"
    by (auto simp: update_keys)
  from Cons.prems(2,3) have "set rest \<inter> set (map fst (AList.update m v d0)) = {}"
    unfolding k by auto
  from Cons.IH [OF r _ this] Cons.prems(2) show ?case
    unfolding k by simp
qed

lemma modelversions_latest_keys:
  assumes "modelversions_latest listing = Inr d"
  shows "map fst d = rev (remdups (rev (listed_models listing)))"
proof -
  from assms obtain ms where ms: "models (r1_files listing) = Inr ms"
    and l: "latest_loop (r1_files listing) (unique_models ms) [] = Inr d"
    by (auto simp: modelversions_latest_def Let_def split: sum.splits)
  from ms have "ms = listed_models listing"
    unfolding models_def listed_models_def by (rule comprehension_field_of)
  moreover have "map fst d = unique_models ms"
    using latest_loop_keys [OF l] by (simp add: unique_models_first)
  ultimately show ?thesis
    by (simp add: unique_models_first)
qed

lemma model_list_filter:
  "model_list dh ds = filter (\<lambda>key. key \<in> set (map fst ds)) (map fst dh)"
  by (simp add: model_list_def map_of_eq_None_iff)

text \<open>Every field of a split string occurs in the string.\<close>

lemma split_parts:
  "\<exists>w ws. split sep s = w # ws \<and> prefix w s \<and> (\<forall>v \<in> set ws. sublist v s)"
proof (induction s)
  case Nil
  then show ?case by simp
next
  case (Cons ch rest)
  then obtain w ws where s: "split sep rest = w # ws" and p: "prefix w rest"
    and t: "\<forall>v \<in> set ws. sublist v rest"
    by blast
  show ?case
  proof (cases "ch = sep")
    case True
    with s p t show ?thesis
      by (auto simp: sublist_Cons_right)
  next
    case False
    with s p t show ?thesis
      by (auto simp: sublist_Cons_right)
  qed
qed

lemma split_field_sublist:
  assumes "k < length (split sep s)"
  shows "sublist (split sep s ! k) s"
proof -
  from split_parts [of sep s] obtain w ws where s: "split sep s = w # ws" and p: "prefix w s"
    and t: "\<forall>v \<in> set ws. sublist v s"
    by blast
  show ?thesis
  proof (cases k)
    case 0
    with s p show ?thesis by simp
  next
    case (Suc n)
    with assms s have "ws ! n \<in> set ws" by simp
    with t Suc s show ?thesis by simp
  qed
qed

lemma latest_version_total:
  assumes "\<forall>f \<in> set r1. 8 \<le> length (split (CHR ''_'') f)"
    and "f \<in> set r1" and "m = split (CHR ''_'') f ! 2"
  shows "\<exists>v. latest_version r1 m = Inr v"
proof -
  define model_files where "model_files = filter (\<lambda>filename. sublist m filename) r1"
  from assms have "sublist m f"
    using split_field_sublist [of 2 "CHR ''_''" f] by auto
  with assms(2) have ne: "model_files \<noteq> []"
    by (auto simp: model_files_def filter_empty_conv)
  from assms(1) have "\<forall>x \<in> set model_files. \<exists>y. field_of 7 x = Inr y"
    by (auto simp: model_files_def field_of_def Let_def)
  from comprehension_total [OF this] obtain versions
    where v: "comprehension (field_of 7) model_files = Inr versions" by blast
  from comprehension_Inr [OF v] ne have "length (sort versions) \<noteq> 0"
    by simp
  then obtain x xs where "sort versions = x # xs"
    by (cases "sort versions") auto
  with v show ?thesis
    unfolding latest_version_def Let_def model_files_def [symmetric] by simp
qed

lemma latest_loop_total:
  "\<forall>m \<in> set ums. \<exists>v. latest_version r1 m = Inr v \<Longrightarrow> \<exists>d. latest_loop r1 ums d0 = Inr d"
  by (induction ums arbitrary: d0) auto

lemma modelversions_latest_total:
  assumes "\<forall>f \<in> set listing. sublist subs f \<longrightarrow> 8 \<le> length (split (CHR ''_'') f)"
  shows "\<exists>d. modelversions_latest listing = Inr d"
proof -
  have w: "\<forall>f \<in> set (r1_files listing). 8 \<le> length (split (CHR ''_'') f)"
    using assms by (auto simp: r1_files_def)
  then have "\<forall>x \<in> set (r1_files listing). \<exists>y. field_of 2 x = Inr y"
    by (auto simp: field_of_def Let_def)
  from comprehension_total [OF this] obtain ms
    where ms: "models (r1_files listing) = Inr ms"
    unfolding models_def by blast
  then have eq: "ms = map (\<lambda>filename. split (CHR ''_'') filename ! 2) (r1_files listing)"
    unfolding models_def by (rule comprehension_field_of)
  have "\<forall>m \<in> set (unique_models ms). \<exists>v. latest_version (r1_files listing) m = Inr v"
  proof
    fix m assume "m \<in> set (unique_models ms)"
    then have "m \<in> set ms" by (simp add: unique_models_first)
    with eq obtain f where "f \<in> set (r1_files listing)" "m = split (CHR ''_'') f ! 2"
      by auto
    with w show "\<exists>v. latest_version (r1_files listing) m = Inr v"
      by (intro latest_version_total) auto
  qed
  from latest_loop_total [OF this] ms show ?thesis
    by (simp add: modelversions_latest_def Let_def)
qed

text \<open>
  Claim C10. When the two cells finish, \<open>model_list\<close> holds exactly the model names that
  occur in both listings (among the files with \<^verbatim>\<open>_r1i1\<close> in their name), every name once,
  in the order in which the names first occur in the sorted historical listing. The cells
  finish whenever every such file name has at least eight fields.
\<close>

theorem model_list_both:
  "(models_with_both files_hist files_ssp245 = Inr ml \<longrightarrow>
      distinct ml \<and>
      set ml = set (listed_models files_hist) \<inter> set (listed_models files_ssp245) \<and>
      ml = filter (\<lambda>m. m \<in> set (listed_models files_ssp245))
             (rev (remdups (rev (listed_models files_hist))))) \<and>
   ((\<forall>f \<in> set files_hist \<union> set files_ssp245.
       sublist subs f \<longrightarrow> 8 \<le> length (split (CHR ''_'') f)) \<longrightarrow>
      (\<exists>ml. models_with_both files_hist files_ssp245 = Inr ml))"
proof (intro conjI impI)
  assume r: "models_with_both files_hist files_ssp245 = Inr ml"
  then obtain dh ds where dh: "modelversions_latest files_hist = Inr dh"
    and ds: "modelversions_latest files_ssp245 = Inr ds" and ml: "ml = model_list dh ds"
    by (auto simp: models_with_both_def split: sum.splits)
  show eq: "ml = filter (\<lambda>m. m \<in> set (listed_models files_ssp245))
             (rev (remdups (rev (listed_models files_hist))))"
    unfolding ml model_list_filter modelversions_latest_keys [OF dh] modelversions_latest_keys [OF ds]
    by simp
  show "distinct ml"
    unfolding eq by simp
  show "set ml = set (listed_models files_hist) \<inter> set (listed_models files_ssp245)"
    unfolding eq by auto
next
  assume a: "\<forall>f \<in> set files_hist \<union> set files_ssp245.
       sublist subs f \<longrightarrow> 8 \<le> length (split (CHR ''_'') f)"
  then obtain dh ds where "modelversions_latest files_hist = Inr dh"
    "modelversions_latest files_ssp245 = Inr ds"
    using modelversions_latest_total [of files_hist] modelversions_latest_total [of files_ssp245]
    by auto
  then show "\<exists>ml. models_with_both files_hist files_ssp245 = Inr ml"
    by (simp add: models_with_both_def)
qed

theorem model_list_both_witness:
  "models_with_both
     [''tas_Amon_MIROC6_historical_r1i1p1f1_gn_185001-201412_v20181212.nc'',
      ''tas_Amon_CanESM5_historical_r1i1p1f1_gn_185001-201412_v20190429.nc'',
      ''tas_Amon_CanESM5_historical_r2i1p1f1_gn_185001-201412_v20190429.nc'',
      ''tas_Amon_BCC-ESM1_historical_r1i1p1f1_gn_185001-201412_v20181214.nc'']
     [''tas_Amon_MIROC6_ssp245_r1i1p1f1_gn_201501-210012_v20190627.nc'',
      ''tas_Amon_CanESM5_ssp245_r1i1p1f1_gn_201501-210012_v20190429.nc'',
      ''tas_Amon_FGOALS-g3_ssp245_r1i1p1f1_gn_201501-210012_v20190818.nc''] =
     Inr [''CanESM5'', ''MIROC6''] \<and>
   set [''CanESM5'', ''MIROC6''] =
     set (listed_models
       [''tas_Amon_MIROC6_historical_r1i1p1f1_gn_185001-201412_v20181212.nc'',
        ''tas_Amon_CanESM5_historical_r1i1p1f1_gn_185001-201412_v20190429.nc'',
        ''tas_Amon_CanESM5_historical_r2i1p1f1_gn_185001-201412_v20190429.nc'',
        ''tas_Amon_BCC-ESM1_historical_r1i1p1f1_gn_185001-201412_v20181214.nc'']) \<inter>
     set (listed_models
       [''tas_Amon_MIROC6_ssp245_r1i1p1f1_gn_201501-210012_v20190627.nc'',
        ''tas_Amon_CanESM5_ssp245_r1i1p1f1_gn_201501-210012_v20190429.nc'',
        ''tas_Amon_FGOALS-g3_ssp245_r1i1p1f1_gn_201501-210012_v20190818.nc''])"
proof -
  have h: "models_with_both
     [''tas_Amon_MIROC6_historical_r1i1p1f1_gn_185001-201412_v20181212.nc'',
      ''tas_Amon_CanESM5_historical_r1i1p1f1_gn_185001-201412_v20190429.nc'',
      ''tas_Amon_CanESM5_historical_r2i1p1f1_gn_185001-201412_v20190429.nc'',
      ''tas_Amon_BCC-ESM1_historical_r1i1p1f1_gn_185001-201412_v20181214.nc'']
     [''tas_Amon_MIROC6_ssp245_r1i1p1f1_gn_201501-210012_v20190627.nc'',
      ''tas_Amon_CanESM5_ssp245_r1i1p1f1_gn_201501-210012_v20190429.nc'',
      ''tas_Amon_FGOALS-g3_ssp245_r1i1p1f1_gn_201501-210012_v20190818.nc''] =
     Inr [''CanESM5'', ''MIROC6'']"
    by code_simp
  from h model_list_both [THEN conjunct1, rule_format, OF h] show ?thesis
    by blast
qed

end
